theory Spec2Isabelle
  imports Complex_Main "HOL-Library.Word"
begin

section \<open>Exceptions\<close>

text \<open>
  Every exception a modelled function can raise is a value of \<open>error\<close>; a function that
  can raise returns \<open>error + 'a\<close>, with \<open>Inl\<close> for the exception.
  \<open>TypeError\<close> is what \<^verbatim>\<open>with None as response:\<close> raises (Python 3.11 and later;
  earlier versions raise AttributeError there). \<open>ConnectionError\<close> stands for the network
  exceptions that \<^verbatim>\<open>req\<close> catches (ConnectionError, ConnectTimeout, HTTPError,
  JSONDecodeError, ProxyError, ReadTimeout, SSLError), \<open>RequestException\<close> for the
  exceptions of the requests library that it does not catch.
\<close>

datatype error =
    AssertionError
  | ValueError
  | AttributeError
  | TypeError
  | HTTPError
  | FileNotFoundError
  | ConnectionError
  | RequestException

section \<open>Delayer (base/timer.py)\<close>

text \<open>
  The functions are given twice: first in exact arithmetic, the floats read as reals,
  then, further down, with the rounding of binary64 written out.
  \<^verbatim>\<open>random.uniform(a, b)\<close> computes \<^verbatim>\<open>a + (b - a) * random()\<close>; the draw of
  \<^verbatim>\<open>random()\<close>, a value of the interval from 0 (included) to 1 (excluded), is the
  explicit argument \<open>u\<close>.
  \<^verbatim>\<open>time.sleep\<close> raises ValueError on a negative pause; it is skipped when
  \<open>debug\<close> is set. The time slept is not part of the model.
\<close>

definition between :: "real \<Rightarrow> real \<Rightarrow> bool \<Rightarrow> real \<Rightarrow> error + real" where
  "between mn mx debug u =
     (let pause = mn + (mx - mn) * u
      in if \<not> debug \<and> pause < 0 then Inl ValueError else Inr pause)"

definition near :: "real \<Rightarrow> real \<Rightarrow> bool \<Rightarrow> real \<Rightarrow> error + real" where
  "near base percentage debug u =
     (if 0 < percentage \<and> percentage < 1
      then between (base - base * percentage) (base + base * percentage) debug u
      else Inl AssertionError)"

definition more_than :: "real \<Rightarrow> real \<Rightarrow> bool \<Rightarrow> real \<Rightarrow> error + real" where
  "more_than base percentage debug u =
     (if 0 < percentage \<and> percentage < 1
      then between base (base + base * percentage) debug u
      else Inl AssertionError)"

definition less_than :: "real \<Rightarrow> real \<Rightarrow> bool \<Rightarrow> real \<Rightarrow> error + real" where
  "less_than base percentage debug u =
     (if 0 < percentage \<and> percentage < 1
      then between (base - base * percentage) base debug u
      else Inl AssertionError)"

text \<open>
  \<^verbatim>\<open>2**errors\<close> on Python integers: an integer for a non-negative exponent, the float
  \<^verbatim>\<open>1 / 2**(-errors)\<close> for a negative one.
\<close>

definition pow2 :: "int \<Rightarrow> real" where
  "pow2 errors = (if errors < 0 then 1 / 2 ^ nat (- errors) else 2 ^ nat errors)"

definition backoff :: "real \<Rightarrow> int \<Rightarrow> int \<Rightarrow> real \<Rightarrow> bool \<Rightarrow> real \<Rightarrow> error + real" where
  "backoff base factor errors percentage debug u =
     (let factor' = max factor 2;
          exponent = (if errors \<noteq> 0 then real_of_int factor' * pow2 errors
                      else real_of_int factor')
      in more_than (base * exponent) percentage debug u)"






section \<open>Strings and integers (Python built-ins the downloader uses)\<close>

text \<open>
  Strings are lists of \<open>char\<close> (bytes); header names and values are read as Latin-1, as
  the requests library does. \<open>lower\<close> is \<^verbatim>\<open>str.lower\<close> on ASCII letters, which is
  all the header names written in the source contain.
\<close>

definition lower_char :: "char \<Rightarrow> char" where
  "lower_char ch =
     (let n = (of_char ch :: nat) in if 65 \<le> n \<and> n \<le> 90 then char_of (n + 32) else ch)"

definition lower :: "string \<Rightarrow> string" where
  "lower s = map lower_char s"

definition is_space :: "char \<Rightarrow> bool" where
  "is_space ch =
     (let n = (of_char ch :: nat)
      in (9 \<le> n \<and> n \<le> 13) \<or> (28 \<le> n \<and> n \<le> 32) \<or> n = 133 \<or> n = 160)"

definition is_digit :: "char \<Rightarrow> bool" where
  "is_digit ch = (let n = (of_char ch :: nat) in 48 \<le> n \<and> n \<le> 57)"

definition digit_val :: "char \<Rightarrow> int" where
  "digit_val ch = int (of_char ch) - 48"

definition strip :: "string \<Rightarrow> string" where
  "strip s = rev (dropWhile is_space (rev (dropWhile is_space s)))"

text \<open>
  \<^verbatim>\<open>int(s)\<close> in base 10: surrounding whitespace is dropped, then an optional sign, then
  decimal digits, where single underscores may stand between two digits. \<open>None\<close> is
  ValueError. From Python 3.11 on a string of more than 4300 digits is a ValueError too.
\<close>

fun parse_digits :: "string \<Rightarrow> int \<Rightarrow> int option" where
  "parse_digits [] acc = Some acc"
| "parse_digits [ch] acc =
     (if is_digit ch then Some (10 * acc + digit_val ch) else None)"
| "parse_digits (ch # d # ds) acc =
     (if is_digit ch then parse_digits (d # ds) (10 * acc + digit_val ch)
      else if ch = CHR ''_'' \<and> is_digit d then parse_digits ds (10 * acc + digit_val d)
      else None)"

definition parse_unsigned :: "string \<Rightarrow> int option" where
  "parse_unsigned s =
     (case s of
        [] \<Rightarrow> None
      | ch # cs \<Rightarrow>
          if is_digit ch \<and> length (filter is_digit s) \<le> 4300
          then parse_digits cs (digit_val ch) else None)"

definition py_int :: "string \<Rightarrow> int option" where
  "py_int s =
     (case strip s of
        [] \<Rightarrow> None
      | ch # cs \<Rightarrow>
          if ch = CHR ''-'' then map_option uminus (parse_unsigned cs)
          else if ch = CHR ''+'' then parse_unsigned cs
          else parse_unsigned (ch # cs))"

text \<open>\<^verbatim>\<open>str(n)\<close>, as an f-string formats an integer.\<close>

fun digits_of :: "nat \<Rightarrow> string" where
  "digits_of n =
     (if n < 10 then [char_of (48 + n)]
      else digits_of (n div 10) @ [char_of (48 + n mod 10)])"

definition py_str :: "int \<Rightarrow> string" where
  "py_str i = (if i < 0 then CHR ''-'' # digits_of (nat (- i)) else digits_of (nat i))"

section \<open>Responses, requests and the client's state\<close>

text \<open>
  A response of the requests library: its status, its headers and its body (read in full,
  since every request is made with \<^verbatim>\<open>stream=False\<close>). The headers are a
  \<^verbatim>\<open>CaseInsensitiveDict\<close>: a map keyed by the lower-cased field name.
\<close>

type_synonym byte = "8 word"

record response =
  status_code :: int
  headers :: "string \<rightharpoonup> string"
  content :: "byte list"

text \<open>
  \<^verbatim>\<open>Response.ok\<close>, which is also the truth value of a response:
  \<^verbatim>\<open>raise_for_status\<close> raises for a status from 400 to 599.
\<close>

definition ok :: "response \<Rightarrow> bool" where
  "ok r = (status_code r < 400 \<or> 600 \<le> status_code r)"

record request =
  meth :: string
  url :: string
  req_headers :: "string \<rightharpoonup> string"

text \<open>
  What \<^verbatim>\<open>Session.request\<close> does with a request: a response, one of the network
  exceptions that \<^verbatim>\<open>HTTPBasic.req\<close> catches (\<open>Caught\<close>), or another exception
  (\<open>Uncaught\<close>). The server is a parameter of the model; its answer may depend on the
  number of requests the client has sent before, and on the request with its headers.
\<close>

datatype outcome = Reply response | Caught | Uncaught

type_synonym server = "nat \<Rightarrow> request \<Rightarrow> outcome"

text \<open>
  The state an \<^verbatim>\<open>HTTPDownloader\<close> works on: the headers of its session, the files
  on disk (path to content; directories and permissions are not modelled, opening a file
  always succeeds) and the requests sent so far, oldest first.
\<close>

record client =
  session_headers :: "string \<rightharpoonup> string"
  files :: "string \<rightharpoonup> byte list"
  sent :: "request list"

text \<open>\<^verbatim>\<open>Union[Path, str]\<close>: a destination is a \<^verbatim>\<open>pathlib.Path\<close> or a plain string.\<close>

datatype file_out = Path string | Str string

fun path_of :: "file_out \<Rightarrow> string" where
  "path_of (Path p) = p"
| "path_of (Str p) = p"

section \<open>HTTPBasic (base/http/basic.py)\<close>

text \<open>
  \<^verbatim>\<open>HTTPBasic.req\<close> as the downloader calls it: \<^verbatim>\<open>debug\<close> is False and the keyword
  arguments are \<^verbatim>\<open>stream\<close> or \<^verbatim>\<open>timeout\<close> only, so \<^verbatim>\<open>_prepare_headers\<close> changes
  nothing. The request goes out with the session's headers. A caught exception gives
  \<^verbatim>\<open>None\<close>.
\<close>

definition req :: "server \<Rightarrow> client \<Rightarrow> string \<Rightarrow> string \<Rightarrow> (error + response option) \<times> client" where
  "req srv c method file_url =
     (let r = \<lparr>meth = method, url = file_url, req_headers = session_headers c\<rparr>;
          c' = c\<lparr>sent := sent c @ [r]\<rparr>
      in case srv (length (sent c)) r of
           Reply response \<Rightarrow> (Inr (Some response), c')
         | Caught \<Rightarrow> (Inr None, c')
         | Uncaught \<Rightarrow> (Inl RequestException, c'))"

definition get :: "server \<Rightarrow> client \<Rightarrow> string \<Rightarrow> (error + response option) \<times> client" where
  "get srv c file_url = req srv c ''GET'' file_url"

section \<open>The file system\<close>

text \<open>
  Modelled from the spec: \<^verbatim>\<open>IO.file_del\<close> of base/io.py, which is not among the sources;
  with \<^verbatim>\<open>resume=False\<close> the destination is deleted before the transfer.
\<close>

definition file_del :: "client \<Rightarrow> file_out \<Rightarrow> client" where
  "file_del c file_out = c\<lparr>files := (files c)(path_of file_out := None)\<rparr>"

text \<open>\<^verbatim>\<open>open(file_out, "wb")\<close> creates the file or empties it.\<close>

definition open_wb :: "client \<Rightarrow> file_out \<Rightarrow> client" where
  "open_wb c file_out = c\<lparr>files := (files c)(path_of file_out \<mapsto> [])\<rparr>"

text \<open>\<^verbatim>\<open>open(file_out, "ab+")\<close> creates the file when it does not exist and keeps it otherwise.\<close>

definition open_ab :: "client \<Rightarrow> file_out \<Rightarrow> client" where
  "open_ab c file_out =
     (case files c (path_of file_out) of
        None \<Rightarrow> c\<lparr>files := (files c)(path_of file_out \<mapsto> [])\<rparr>
      | Some bs \<Rightarrow> c)"

text \<open>\<^verbatim>\<open>file.write(chunk); file.flush()\<close> on either handle adds the chunk at the end.\<close>

definition file_write :: "file_out \<Rightarrow> byte list \<Rightarrow> client \<Rightarrow> client" where
  "file_write file_out chunk c =
     c\<lparr>files := (files c)(path_of file_out \<mapsto>
          (case files c (path_of file_out) of None \<Rightarrow> chunk | Some bs \<Rightarrow> bs @ chunk))\<rparr>"

text \<open>
  \<^verbatim>\<open>file_out.stat().st_size\<close>: a plain string has no \<^verbatim>\<open>stat\<close> method, and a path
  that names no file raises FileNotFoundError.
\<close>

definition stat_st_size :: "client \<Rightarrow> file_out \<Rightarrow> error + int" where
  "stat_st_size c file_out =
     (case file_out of
        Str s \<Rightarrow> Inl AttributeError
      | Path p \<Rightarrow>
          (case files c p of
             None \<Rightarrow> Inl FileNotFoundError
           | Some bs \<Rightarrow> Inr (int (length bs))))"

text \<open>
  \<^verbatim>\<open>Response.iter_content(chunk_size)\<close> on a body already read: the library's
  \<^verbatim>\<open>iter_slices\<close>. A chunk size of 0 or less means the whole body in one chunk; the
  slice length is then 0 only for an empty body, where the loop does not run.
\<close>

fun slices :: "nat \<Rightarrow> 'a list \<Rightarrow> 'a list list" where
  "slices n xs = (if n = 0 \<or> xs = [] then [] else take n xs # slices n (drop n xs))"

definition iter_content :: "response \<Rightarrow> int \<Rightarrow> byte list list" where
  "iter_content r chunk_size =
     slices (if chunk_size \<le> 0 then length (content r) else nat chunk_size) (content r)"

section \<open>HTTPDownloader (base/http/downloader.py)\<close>

definition head :: "server \<Rightarrow> client \<Rightarrow> string \<Rightarrow> (error + response option) \<times> client" where
  "head srv c file_url = req srv c ''HEAD'' file_url"

definition has_range :: "response \<Rightarrow> bool" where
  "has_range response = (lower ''Accept-Ranges'' \<in> dom (headers response))"

definition file_size :: "response option \<Rightarrow> int" where
  "file_size response =
     (case response of
        None \<Rightarrow> 0
      | Some r \<Rightarrow>
          if ok r then
            (case headers r (lower ''content-length'') of
               None \<Rightarrow> 0
             | Some v \<Rightarrow> (case py_int v of None \<Rightarrow> 0 | Some n \<Rightarrow> n))
          else 0)"

definition download_direct ::
  "server \<Rightarrow> client \<Rightarrow> string \<Rightarrow> file_out \<Rightarrow> int \<Rightarrow> bool \<Rightarrow> (error + bool) \<times> client" where
  "download_direct srv c file_url file_out chunk_size debug =
     (case get srv c file_url of
        (Inl e, c1) \<Rightarrow> (Inl e, c1)
      | (Inr None, c1) \<Rightarrow> (Inl TypeError, c1)
      | (Inr (Some response), c1) \<Rightarrow>
          if \<not> ok response then (Inl HTTPError, c1)
          else
            (let total_size = file_size (Some response);
                 c2 = fold (file_write file_out) (iter_content response chunk_size)
                        (open_wb c1 file_out)
             in (case stat_st_size c2 file_out of
                   Inl e \<Rightarrow> (Inl e, c2)
                 | Inr fsize \<Rightarrow> (Inr (fsize \<ge> total_size), c2))))"

definition resume_download ::
  "server \<Rightarrow> client \<Rightarrow> string \<Rightarrow> int \<Rightarrow> int \<Rightarrow> (error + response option) \<times> client" where
  "resume_download srv c file_url pos_start pos_end =
     (let range0 = ''bytes='' @ py_str pos_start @ ''-'';
          range1 = (if pos_end \<noteq> 0 then range0 @ py_str pos_end else range0)
      in get srv (c\<lparr>session_headers := (session_headers c)(lower ''Range'' \<mapsto> range1)\<rparr>)
           file_url)"

text \<open>
  One pass through the body of \<^verbatim>\<open>while True:\<close> in \<^verbatim>\<open>download_ranges\<close>
  (lines 134 to 167): it ends in an exception, in a \<^verbatim>\<open>break\<close>, or at the end of the
  body, from where the loop goes round again.
\<close>

datatype flow = Break | Continue

definition ranges_iteration ::
  "server \<Rightarrow> string \<Rightarrow> file_out \<Rightarrow> int \<Rightarrow> int \<Rightarrow> int \<Rightarrow> client \<Rightarrow> (error + flow) \<times> client" where
  "ranges_iteration srv file_url file_out chunk_size block_size total_size c =
     (case stat_st_size c file_out of
        Inl e \<Rightarrow> (Inl e, c)
      | Inr fsize \<Rightarrow>
          if fsize \<ge> total_size then (Inr Break, c)
          else
            (let pos_end = min (fsize + block_size) total_size
             in (case resume_download srv c file_url fsize pos_end of
                   (Inl e, c1) \<Rightarrow> (Inl e, c1)
                 | (Inr None, c1) \<Rightarrow> (Inl TypeError, c1)
                 | (Inr (Some response), c1) \<Rightarrow>
                     if \<not> ok response then (Inl HTTPError, c1)
                     else
                       (let c2 = fold (file_write file_out)
                                   (iter_content response chunk_size) c1
                        in (Inr (if pos_end \<ge> total_size then Break else Continue), c2)))))"

text \<open>The loop itself. It may run forever: \<open>None\<close> is the call that never returns.\<close>

partial_function (option) ranges_loop ::
  "server \<Rightarrow> string \<Rightarrow> file_out \<Rightarrow> int \<Rightarrow> int \<Rightarrow> int \<Rightarrow> client \<Rightarrow> ((error + unit) \<times> client) option" where
  "ranges_loop srv file_url file_out chunk_size block_size total_size c =
     (case ranges_iteration srv file_url file_out chunk_size block_size total_size c of
        (Inl e, c') \<Rightarrow> Some (Inl e, c')
      | (Inr Break, c') \<Rightarrow> Some (Inr (), c')
      | (Inr Continue, c') \<Rightarrow>
          ranges_loop srv file_url file_out chunk_size block_size total_size c')"

declare ranges_loop.simps [code]

definition download_ranges ::
  "server \<Rightarrow> client \<Rightarrow> string \<Rightarrow> file_out \<Rightarrow> int \<Rightarrow> int \<Rightarrow> bool \<Rightarrow> bool
     \<Rightarrow> ((error + bool) \<times> client) option" where
  "download_ranges srv c file_url file_out chunk_size block_size resume debug =
     (let c0 = (if \<not> resume then file_del c file_out else c)
      in case head srv c0 file_url of
           (Inl e, c1) \<Rightarrow> Some (Inl e, c1)
         | (Inr response, c1) \<Rightarrow>
             let total_size = file_size response
             in if total_size = 0
                then (if debug then Some (Inl ValueError, c1) else Some (Inr False, c1))
                else
                  (case ranges_loop srv file_url file_out chunk_size block_size total_size
                          (open_ab c1 file_out) of
                     None \<Rightarrow> None
                   | Some (Inl e, c2) \<Rightarrow> Some (Inl e, c2)
                   | Some (Inr u, c2) \<Rightarrow>
                       (case stat_st_size c2 file_out of
                          Inl e \<Rightarrow> Some (Inl e, c2)
                        | Inr fsize \<Rightarrow> Some (Inr (fsize \<ge> total_size), c2))))"

text \<open>
  \<^verbatim>\<open>download\<close>. \<^verbatim>\<open>IO.dir_create\<close> (base/io.py, not among the sources) makes the
  destination's directory; directories are not part of the model. The two transfers are
  called with their default chunk and block sizes and \<^verbatim>\<open>resume=False\<close>.
\<close>

definition download ::
  "server \<Rightarrow> client \<Rightarrow> string \<Rightarrow> file_out \<Rightarrow> bool \<Rightarrow> ((error + bool) \<times> client) option" where
  "download srv c file_url file_out debug =
     (case head srv c file_url of
        (Inl e, c1) \<Rightarrow> Some (Inl e, c1)
      | (Inr None, c1) \<Rightarrow> Some (Inr False, c1)
      | (Inr (Some response), c1) \<Rightarrow>
          let total_size = file_size (Some response)
          in if total_size = 0
             then (if debug then Some (Inl ValueError, c1) else Some (Inr False, c1))
             else if has_range response
             then download_ranges srv c1 file_url file_out 1024 (1024 * 1024) False debug
             else Some (download_direct srv c1 file_url file_out 1024 debug))"

text \<open>
  A new \<^verbatim>\<open>HTTPDownloader\<close> (\<^verbatim>\<open>HTTPBasic.__init__\<close>): the session carries the
  User-Agent header when one is given. The default headers of a requests session, the proxy
  and the timeout are not modelled. \<open>fs\<close> is the file system the client runs on.
\<close>

definition new_downloader :: "string \<Rightarrow> (string \<rightharpoonup> byte list) \<Rightarrow> client" where
  "new_downloader user_agent fs =
     \<lparr>session_headers =
        (if user_agent \<noteq> [] then [lower ''User-Agent'' \<mapsto> user_agent] else Map.empty),
      files = fs, sent = []\<rparr>"

section \<open>The request of one pass, for the statements below\<close>

text \<open>
  The request that \<^verbatim>\<open>_resume_download\<close> sends from a client \<open>c\<close>, and the client
  after it: the Range header stays in the session. Both are derived from the definitions
  above (lemma \<open>resume_download_eq\<close>).
\<close>

definition range_request :: "client \<Rightarrow> string \<Rightarrow> int \<Rightarrow> int \<Rightarrow> request" where
  "range_request c file_url pos_start pos_end =
     \<lparr>meth = ''GET'', url = file_url,
      req_headers = (session_headers c)(lower ''Range'' \<mapsto>
        ''bytes='' @ py_str pos_start @ ''-'' @ (if pos_end \<noteq> 0 then py_str pos_end else []))\<rparr>"

definition after_request :: "client \<Rightarrow> request \<Rightarrow> client" where
  "after_request c r = c\<lparr>session_headers := req_headers r, sent := sent c @ [r]\<rparr>"

text \<open>The request that \<^verbatim>\<open>_head\<close> sends from a client \<open>c\<close>.\<close>

definition head_request :: "client \<Rightarrow> string \<Rightarrow> request" where
  "head_request c file_url = \<lparr>meth = ''HEAD'', url = file_url, req_headers = session_headers c\<rparr>"

text \<open>The method and the Range header of every request sent so far, oldest first.\<close>

definition range_log :: "client \<Rightarrow> (string \<times> string option) list" where
  "range_log c = map (\<lambda>r. (meth r, req_headers r ''range'')) (sent c)"

section \<open>Servers for the examples\<close>

text \<open>
  An origin server for one resource that serves byte ranges as RFC 9110 defines them:
  \<^verbatim>\<open>Range: bytes=a-b\<close> asks for the bytes at the positions \<open>a\<close> to \<open>b\<close>, both included
  (\<open>b - a + 1\<close> bytes, cut at the end of the resource), \<^verbatim>\<open>bytes=a-\<close> for everything
  from \<open>a\<close> on. A range that starts behind the end is answered with 416, a header that
  is no byte range (or whose last position is below its first) is ignored. A HEAD request
  gets the headers of the same answer without the body.
\<close>

definition nat_of_digits :: "string \<Rightarrow> nat" where
  "nat_of_digits ds = foldl (\<lambda>acc ch. 10 * acc + (of_char ch - 48)) 0 ds"

definition parse_range :: "string \<Rightarrow> (nat \<times> nat option) option" where
  "parse_range v =
     (if take 6 v = ''bytes='' then
        (let rest = drop 6 v;
             first = takeWhile is_digit rest;
             last = drop (Suc (length first)) rest
         in if first \<noteq> [] \<and> take 1 (drop (length first) rest) = ''-'' \<and> list_all is_digit last
            then Some (nat_of_digits first, if last = [] then None else Some (nat_of_digits last))
            else None)
      else None)"

definition range_reply :: "byte list \<Rightarrow> string option \<Rightarrow> int \<times> byte list" where
  "range_reply resource hdr =
     (case hdr of
        None \<Rightarrow> (200, resource)
      | Some v \<Rightarrow>
          (case parse_range v of
             None \<Rightarrow> (200, resource)
           | Some (a, None) \<Rightarrow>
               if a < length resource then (206, drop a resource) else (416, [])
           | Some (a, Some b) \<Rightarrow>
               if b < a then (200, resource)
               else if a < length resource then (206, take (Suc b - a) (drop a resource))
               else (416, [])))"

definition range_server :: "byte list \<Rightarrow> server" where
  "range_server resource i r =
     (case range_reply resource (req_headers r ''range'') of
        (st, body) \<Rightarrow>
          Reply \<lparr>status_code = st,
                 headers = [''accept-ranges'' \<mapsto> ''bytes'',
                            ''content-length'' \<mapsto> py_str (int (length body))],
                 content = (if meth r = ''HEAD'' then [] else body)\<rparr>)"

text \<open>
  A server that announces a resource of \<open>n\<close> bytes with range support and answers every
  GET with 206 and an empty body.
\<close>

definition empty_body_server :: "int \<Rightarrow> server" where
  "empty_body_server n i r =
     (if meth r = ''HEAD''
      then Reply \<lparr>status_code = 200,
                  headers = [''accept-ranges'' \<mapsto> ''bytes'', ''content-length'' \<mapsto> py_str n],
                  content = []\<rparr>
      else Reply \<lparr>status_code = 206, headers = [''content-length'' \<mapsto> ''0''], content = []\<rparr>)"

text \<open>
  A server that does not serve ranges and says so: every response is the whole resource
  with status 200 and the header \<^verbatim>\<open>Accept-Ranges: none\<close>.
\<close>

definition accept_none_server :: "byte list \<Rightarrow> server" where
  "accept_none_server resource i r =
     Reply \<lparr>status_code = 200,
            headers = [''accept-ranges'' \<mapsto> ''none'',
                       ''content-length'' \<mapsto> py_str (int (length resource))],
            content = (if meth r = ''HEAD'' then [] else resource)\<rparr>"



text \<open>A server that answers the first request with 200 and every later one with 429.\<close>

definition ok_then_limited_server :: server where
  "ok_then_limited_server i r =
     Reply \<lparr>status_code = (if i = 0 then 200 else 429), headers = Map.empty, content = []\<rparr>"

section \<open>MemoryCache and HTTPClient (base/http/advanced.py)\<close>

text \<open>
  Modelled from the spec: the class \<^verbatim>\<open>MemoryCache\<close> of base/cache.py, which is not among
  the sources. It is the spec's ErrorWindow: \<^verbatim>\<open>add\<close> records one entry now, and
  \<^verbatim>\<open>size\<close> counts the entries younger than the retention period. \<open>now\<close> is the
  clock, in seconds.
\<close>

record memory_cache =
  seconds :: int
  entries :: "(int \<times> string) list"

definition new_cache :: "int \<Rightarrow> memory_cache" where
  "new_cache secs = \<lparr>seconds = secs, entries = []\<rparr>"

definition cache_add :: "memory_cache \<Rightarrow> int \<Rightarrow> string \<Rightarrow> memory_cache" where
  "cache_add m now key = m\<lparr>entries := entries m @ [(now, key)]\<rparr>"

definition cache_size :: "memory_cache \<Rightarrow> int \<Rightarrow> nat" where
  "cache_size m now = length (filter (\<lambda>(t, key). now - t < seconds m) (entries m))"

text \<open>
  An \<^verbatim>\<open>HTTPClient\<close>: its session headers, the requests it has sent, whether it was
  given a debugger, and \<^verbatim>\<open>_errors\<close>. What the logger and the debugger write is not
  modelled.
\<close>

record http_client =
  hc_headers :: "string \<rightharpoonup> string"
  hc_sent :: "request list"
  debugger :: bool
  errors :: "memory_cache option"

definition new_client :: "string \<Rightarrow> bool \<Rightarrow> bool \<Rightarrow> http_client" where
  "new_client user_agent with_debugger use_delay =
     \<lparr>hc_headers =
        (if user_agent \<noteq> [] then [lower ''User-Agent'' \<mapsto> user_agent] else Map.empty),
      hc_sent = [], debugger = with_debugger,
      errors = (if use_delay then Some (new_cache 3600) else None)\<rparr>"

text \<open>
  \<^verbatim>\<open>HTTPClient.req\<close>, called without \<^verbatim>\<open>json\<close>, \<^verbatim>\<open>data\<close> or \<^verbatim>\<open>headers\<close>
  keyword arguments. In debug mode a caught exception is raised again.
\<close>

definition client_req ::
  "server \<Rightarrow> int \<Rightarrow> http_client \<Rightarrow> string \<Rightarrow> string \<Rightarrow> bool
     \<Rightarrow> (error + response option) \<times> http_client" where
  "client_req srv now c method file_url debug =
     (if debug \<and> \<not> debugger c then (Inl AssertionError, c)
      else
        let r = \<lparr>meth = method, url = file_url, req_headers = hc_headers c\<rparr>;
            c1 = c\<lparr>hc_sent := hc_sent c @ [r]\<rparr>
        in case srv (length (hc_sent c)) r of
             Reply response \<Rightarrow>
               (Inr (Some response),
                (case errors c1 of
                   None \<Rightarrow> c1
                 | Some m \<Rightarrow> c1\<lparr>errors := Some (cache_add m now ''error'')\<rparr>))
           | Caught \<Rightarrow> if debug then (Inl ConnectionError, c1) else (Inr None, c1)
           | Uncaught \<Rightarrow> (Inl RequestException, c1))"

definition is_limited :: "response option \<Rightarrow> bool" where
  "is_limited response = (case response of None \<Rightarrow> False | Some r \<Rightarrow> status_code r = 429)"

text \<open>
  \<^verbatim>\<open>HTTPClient._backoff\<close>: the error count handed to \<^verbatim>\<open>Delayer.backoff\<close> is the size
  of \<^verbatim>\<open>_errors\<close>; base, factor and percentage have their defaults 1.0, 2 and 0.1.
\<close>

definition client_backoff ::
  "int \<Rightarrow> http_client \<Rightarrow> response option \<Rightarrow> bool \<Rightarrow> real \<Rightarrow> (error + real) \<times> http_client" where
  "client_backoff now c response debug u =
     (case errors c of
        None \<Rightarrow>
          (if is_limited response
           then backoff 1 2 (int (cache_size (new_cache 3600) now)) (1 / 10) debug u
           else Inr 0,
           c\<lparr>errors := Some (new_cache 3600)\<rparr>)
      | Some m \<Rightarrow>
          (if is_limited response
           then backoff 1 2 (int (cache_size m now)) (1 / 10) debug u
           else Inr 0,
           c))"

section \<open>Properties of the Delayer\<close>






section \<open>The Delayer in binary64 arithmetic\<close>








section \<open>Evaluating strings\<close>

lemma lower_keys [simp]:
  "lower ''Accept-Ranges'' = ''accept-ranges''"
  "lower ''content-length'' = ''content-length''"
  "lower ''Range'' = ''range''"
  "lower ''User-Agent'' = ''user-agent''"
  by (simp_all add: lower_def lower_char_def char_of_def bit_Suc_0_iff)

section \<open>Writing a body, and one pass of the loop\<close>

lemma slices_concat: "0 < n \<Longrightarrow> concat (slices n xs) = xs"
proof (induction n xs rule: slices.induct)
  case (1 n xs)
  show ?case
  proof (cases "xs = []")
    case True
    then show ?thesis by simp
  next
    case False
    with 1 have "concat (slices n (drop n xs)) = drop n xs" by simp
    with False 1(2) show ?thesis
      by (subst slices.simps) simp
  qed
qed

lemma iter_content_concat: "concat (iter_content r chunk_size) = content r"
proof (cases "content r = []")
  case True
  then show ?thesis by (simp add: iter_content_def)
next
  case False
  then have "0 < (if chunk_size \<le> 0 then length (content r) else nat chunk_size)"
    by simp
  then show ?thesis unfolding iter_content_def by (rule slices_concat)
qed

lemma file_write_files:
  "files c (path_of fo) = Some bs \<Longrightarrow>
   file_write fo ch c = c\<lparr>files := (files c)(path_of fo \<mapsto> bs @ ch)\<rparr>"
  by (simp add: file_write_def)

lemma fold_file_write:
  "files c (path_of fo) = Some bs \<Longrightarrow>
   fold (file_write fo) chunks c = c\<lparr>files := (files c)(path_of fo \<mapsto> bs @ concat chunks)\<rparr>"
proof (induction chunks arbitrary: c bs)
  case Nil
  then have "(files c)(path_of fo \<mapsto> bs) = files c" by (simp add: map_upd_triv)
  then show ?case by simp
next
  case (Cons ch chunks)
  let ?c1 = "c\<lparr>files := (files c)(path_of fo \<mapsto> bs @ ch)\<rparr>"
  have step: "file_write fo ch c = ?c1"
    using Cons.prems by (rule file_write_files)
  have "files ?c1 (path_of fo) = Some (bs @ ch)" by simp
  from Cons.IH [OF this]
  have ih: "fold (file_write fo) chunks ?c1
          = ?c1\<lparr>files := (files ?c1)(path_of fo \<mapsto> (bs @ ch) @ concat chunks)\<rparr>" .
  have "fold (file_write fo) (ch # chunks) c = fold (file_write fo) chunks ?c1"
    by (simp only: fold_simps o_apply step)
  also note ih
  also have "?c1\<lparr>files := (files ?c1)(path_of fo \<mapsto> (bs @ ch) @ concat chunks)\<rparr>
      = c\<lparr>files := (files c)(path_of fo \<mapsto> bs @ concat (ch # chunks))\<rparr>"
    by simp
  finally show ?case .
qed

lemma write_body:
  "files c (path_of fo) = Some bs \<Longrightarrow>
   fold (file_write fo) (iter_content r chunk_size) c
     = c\<lparr>files := (files c)(path_of fo \<mapsto> bs @ content r)\<rparr>"
  by (simp add: fold_file_write iter_content_concat)

lemma resume_download_eq:
  "resume_download srv c file_url pos_start pos_end =
     (let r = range_request c file_url pos_start pos_end
      in (case srv (length (sent c)) r of
            Reply response \<Rightarrow> Inr (Some response)
          | Caught \<Rightarrow> Inr None
          | Uncaught \<Rightarrow> Inl RequestException,
          after_request c r))"
  by (simp add: resume_download_def get_def req_def range_request_def after_request_def Let_def
      split: outcome.splits)

lemma ranges_iteration_done:
  assumes "files c p = Some bs" and "total_size \<le> int (length bs)"
  shows "ranges_iteration srv file_url (Path p) chunk_size block_size total_size c = (Inr Break, c)"
  using assms by (simp add: ranges_iteration_def stat_st_size_def)

lemma ranges_iteration_request:
  assumes "files c p = Some bs" and "int (length bs) < total_size"
    and "min (int (length bs) + block_size) total_size = pos_end"
    and "range_request c file_url (int (length bs)) pos_end = r"
  shows "ranges_iteration srv file_url (Path p) chunk_size block_size total_size c =
     (case srv (length (sent c)) r of
        Uncaught \<Rightarrow> (Inl RequestException, after_request c r)
      | Caught \<Rightarrow> (Inl TypeError, after_request c r)
      | Reply response \<Rightarrow>
          if ok response
          then (Inr (if total_size \<le> pos_end then Break else Continue),
                (after_request c r)\<lparr>files := (files c)(p \<mapsto> bs @ content response)\<rparr>)
          else (Inl HTTPError, after_request c r))"
proof -
  have f: "files (after_request c r) (path_of (Path p)) = Some bs"
    using assms(1) by (simp add: after_request_def)
  have w: "fold (file_write (Path p)) (iter_content response chunk_size) (after_request c r)
        = (after_request c r)\<lparr>files := (files c)(p \<mapsto> bs @ content response)\<rparr>" for response
    using write_body [OF f, of response chunk_size] by (simp add: after_request_def)
  have st: "stat_st_size c (Path p) = Inr (int (length bs))"
    using assms(1) by (simp add: stat_st_size_def)
  have nd: "\<not> total_size \<le> int (length bs)" using assms(2) by simp
  show ?thesis
    unfolding ranges_iteration_def st sum.case if_not_P [OF nd] Let_def assms(3)
      resume_download_eq assms(4)
    by (cases "srv (length (sent c)) r") (simp_all add: w)
qed

section \<open>The loop\<close>

lemma ranges_iteration_appends:
  assumes "ranges_iteration srv file_url fo chunk_size block_size total_size c = (res, c')"
    and "files c (path_of fo) = Some bs"
  shows "\<exists>suf rs. files c' (path_of fo) = Some (bs @ suf) \<and> sent c' = sent c @ rs"
proof (cases fo)
  case (Str s)
  then have "c' = c" using assms(1) by (simp add: ranges_iteration_def stat_st_size_def)
  with assms(2) show ?thesis by simp
next
  case (Path p)
  with assms(2) have f: "files c p = Some bs" by simp
  show ?thesis
  proof (cases "total_size \<le> int (length bs)")
    case True
    from ranges_iteration_done [OF f True] assms(1) Path have "c' = c" by simp
    with assms(2) show ?thesis by simp
  next
    case False
    then have lt: "int (length bs) < total_size" by simp
    define pos_end where "pos_end = min (int (length bs) + block_size) total_size"
    define r where "r = range_request c file_url (int (length bs)) pos_end"
    note it = ranges_iteration_request [OF f lt pos_end_def [symmetric] r_def [symmetric],
        of srv chunk_size]
    show ?thesis
    proof (cases "srv (length (sent c)) r")
      case (Reply response)
      with it assms(1) Path f show ?thesis
        by (cases "ok response") (auto simp: after_request_def)
    next
      case Caught
      with it assms(1) Path f show ?thesis by (auto simp: after_request_def)
    next
      case Uncaught
      with it assms(1) Path f show ?thesis by (auto simp: after_request_def)
    qed
  qed
qed

lemma ranges_loop_appends:
  assumes "ranges_loop srv file_url fo chunk_size block_size total_size c = Some y"
    and "files c (path_of fo) = Some bs"
  shows "\<exists>suf rs. files (snd y) (path_of fo) = Some (bs @ suf) \<and> sent (snd y) = sent c @ rs"
  using assms
proof (induction srv file_url fo chunk_size block_size total_size c y arbitrary: bs
    rule: ranges_loop.raw_induct [rotated 1, consumes 1])
  case (1 loop srv file_url fo chunk_size block_size total_size c y)
  obtain res c1 where it: "ranges_iteration srv file_url fo chunk_size block_size total_size c = (res, c1)"
    by (cases "ranges_iteration srv file_url fo chunk_size block_size total_size c")
  from ranges_iteration_appends [OF it "1.prems"]
  obtain suf rs where s1: "files c1 (path_of fo) = Some (bs @ suf)" and r1: "sent c1 = sent c @ rs"
    by blast
  show ?case
  proof (cases res)
    case (Inl e)
    with it "1.hyps" have "y = (Inl e, c1)" by simp
    with s1 r1 show ?thesis by simp
  next
    case (Inr fl)
    show ?thesis
    proof (cases fl)
      case Break
      with Inr it "1.hyps" have "y = (Inr (), c1)" by simp
      with s1 r1 show ?thesis by simp
    next
      case Continue
      with Inr it "1.hyps"
      have "loop srv file_url fo chunk_size block_size total_size c1 = Some y" by simp
      from "1.IH" [OF this s1]
      obtain suf' rs' where "files (snd y) (path_of fo) = Some ((bs @ suf) @ suf')"
        and "sent (snd y) = sent c1 @ rs'" by blast
      with r1 show ?thesis by simp
    qed
  qed
qed

lemma ranges_loop_continue:
  "ranges_iteration srv file_url fo chunk_size block_size total_size c = (Inr Continue, c') \<Longrightarrow>
   ranges_loop srv file_url fo chunk_size block_size total_size c
     = ranges_loop srv file_url fo chunk_size block_size total_size c'"
  by (subst ranges_loop.simps) simp

lemma ranges_loop_break:
  "ranges_iteration srv file_url fo chunk_size block_size total_size c = (Inr Break, c') \<Longrightarrow>
   ranges_loop srv file_url fo chunk_size block_size total_size c = Some (Inr (), c')"
  by (subst ranges_loop.simps) simp

lemma ranges_loop_raise:
  "ranges_iteration srv file_url fo chunk_size block_size total_size c = (Inl e, c') \<Longrightarrow>
   ranges_loop srv file_url fo chunk_size block_size total_size c = Some (Inl e, c')"
  by (subst ranges_loop.simps) simp

text \<open>No progress: a loop whose every pass leaves the file as it is and continues never returns.\<close>

lemma ranges_loop_stuck:
  assumes srv: "\<And>i r. meth r = ''GET'' \<Longrightarrow>
                  \<exists>response. srv i r = Reply response \<and> ok response \<and> content response = []"
    and "files c p = Some bs"
    and "int (length bs) < total_size"
    and "int (length bs) + block_size < total_size"
  shows "ranges_loop srv file_url (Path p) chunk_size block_size total_size c = None"
proof -
  have "ranges_loop srv' file_url fo chunk_size block_size' total_size' c = Some y \<Longrightarrow>
        srv' = srv \<Longrightarrow> fo = Path p \<Longrightarrow> block_size' = block_size \<Longrightarrow> total_size' = total_size \<Longrightarrow>
        files c p \<noteq> Some bs" for srv' fo block_size' total_size' c y
  proof (induction srv' file_url fo chunk_size block_size' total_size' c y
      rule: ranges_loop.raw_induct [rotated 1, consumes 1])
    case (1 loop srv' file_url fo chunk_size block_size' total_size' c y)
    show ?case
    proof
      assume f: "files c p = Some bs"
      define pos_end where "pos_end = min (int (length bs) + block_size) total_size"
      define r where "r = range_request c file_url (int (length bs)) pos_end"
      have "meth r = ''GET''" by (simp add: r_def range_request_def)
      from srv [OF this, of "length (sent c)"]
      obtain response where rp: "srv (length (sent c)) r = Reply response"
        and okr: "ok response" and emp: "content response = []" by blast
      have pe: "\<not> total_size \<le> pos_end" using assms(4) by (simp add: pos_end_def)
      define c1 where "c1 = (after_request c r)\<lparr>files := (files c)(p \<mapsto> bs @ content response)\<rparr>"
      have it: "ranges_iteration srv file_url (Path p) chunk_size block_size total_size c
                  = (Inr Continue, c1)"
        using ranges_iteration_request [OF f assms(3) pos_end_def [symmetric] r_def [symmetric],
            of srv chunk_size] rp okr pe
        by (simp add: c1_def)
      have f1: "files c1 p = Some bs" by (simp add: c1_def emp)
      from "1.hyps" it "1.prems"
      have "loop srv file_url (Path p) chunk_size block_size total_size c1 = Some y" by simp
      from "1.IH" [OF this] "1.prems" have "files c1 p \<noteq> Some bs" by simp
      with f1 show False by simp
    qed
  qed
  then have "ranges_loop srv file_url (Path p) chunk_size block_size total_size c \<noteq> Some y" for y
    using assms(2) by blast
  then show ?thesis
    by (cases "ranges_loop srv file_url (Path p) chunk_size block_size total_size c") auto
qed

section \<open>The whole of download_ranges\<close>

lemma head_eq:
  "head srv c file_url =
     (case srv (length (sent c)) (head_request c file_url) of
        Reply response \<Rightarrow> Inr (Some response)
      | Caught \<Rightarrow> Inr None
      | Uncaught \<Rightarrow> Inl RequestException,
      c\<lparr>sent := sent c @ [head_request c file_url]\<rparr>)"
  by (simp add: head_def req_def head_request_def Let_def split: outcome.splits)


lemma download_ranges_sized:
  assumes "head srv (if resume then c else file_del c fo) file_url = (Inr response, c1)"
    and "file_size response = total_size" and "total_size \<noteq> 0"
  shows "download_ranges srv c file_url fo chunk_size block_size resume debug =
     (case ranges_loop srv file_url fo chunk_size block_size total_size (open_ab c1 fo) of
        None \<Rightarrow> None
      | Some (Inl e, c2) \<Rightarrow> Some (Inl e, c2)
      | Some (Inr u, c2) \<Rightarrow>
          (case stat_st_size c2 fo of
             Inl e \<Rightarrow> Some (Inl e, c2)
           | Inr fsize \<Rightarrow> Some (Inr (total_size \<le> fsize), c2)))"
proof -
  have h: "head srv (if \<not> resume then file_del c fo else c) file_url = (Inr response, c1)"
    using assms(1) by (cases resume) simp_all
  show ?thesis
    unfolding download_ranges_def Let_def h prod.case sum.case assms(2) if_not_P [OF assms(3)]
    by simp
qed

lemma download_ranges_stuck:
  assumes "head srv (if resume then c else file_del c (Path p)) file_url = (Inr response, c1)"
    and "file_size response = total_size" and "total_size \<noteq> 0"
    and "\<And>i r. meth r = ''GET'' \<Longrightarrow>
           \<exists>response. srv i r = Reply response \<and> ok response \<and> content response = []"
    and "files (open_ab c1 (Path p)) p = Some bs"
    and "int (length bs) < total_size"
    and "int (length bs) + block_size < total_size"
  shows "download_ranges srv c file_url (Path p) chunk_size block_size resume debug = None"
  by (simp add: download_ranges_sized [OF assms(1-3)] ranges_loop_stuck [OF assms(4-7)])

lemma py_int_5000000: "py_int ''5000000'' = Some 5000000"
  by (simp add: py_int_def strip_def is_space_def parse_unsigned_def is_digit_def digit_val_def)

lemma py_str_5000000: "py_str 5000000 = ''5000000''"
  by (simp add: py_str_def char_of_def bit_Suc_0_iff)

text \<open>
  Claim C1. The claim fails on the code: a resource of 5,000,000 bytes, the default block
  size of 1,048,576, an empty destination and a server whose range responses all have an
  empty body. Every pass finds the file at size 0 and the window end 1,048,576 below the
  total, so neither \<^verbatim>\<open>break\<close> is reached: the call never returns (\<open>None\<close>).
  Lemma \<open>download_ranges_stuck\<close> is the general statement, for every start size \<open>k\<close>
  with \<open>k + block_size\<close> below the total; lemma \<open>download_ranges_last_window\<close> is
  the other case, where the call returns False after one pass.
\<close>

theorem download_ranges_no_progress_never_returns:
  "download_ranges (empty_body_server 5000000) (new_downloader ''ua'' Map.empty) ''u''
     (Path ''f'') 1024 (1024 * 1024) False False = None"
proof -
  let ?cn = "new_downloader ''ua'' Map.empty"
  let ?resp = "\<lparr>status_code = 200,
                 headers = [''accept-ranges'' \<mapsto> ''bytes'', ''content-length'' \<mapsto> ''5000000''],
                 content = []\<rparr>"
  let ?cd = "if False then ?cn else file_del ?cn (Path ''f'')"
  let ?ch = "?cd\<lparr>sent := sent ?cd @ [head_request ?cd ''u'']\<rparr>"
  have h: "head (empty_body_server 5000000) ?cd ''u'' = (Inr (Some ?resp), ?ch)"
    by (simp add: head_eq empty_body_server_def head_request_def py_str_5000000)
  have sz: "file_size (Some ?resp) = 5000000"
    by (simp add: file_size_def ok_def py_int_5000000)
  have srv: "\<exists>response. empty_body_server 5000000 i r = Reply response \<and> ok response
               \<and> content response = []" if "meth r = ''GET''" for i r
    using that by (simp add: empty_body_server_def ok_def)
  have f: "files (open_ab ?ch (Path ''f'')) ''f'' = Some []"
    by (simp add: open_ab_def file_del_def new_downloader_def)
  show ?thesis
    by (rule download_ranges_stuck [OF h sz _ srv f]) simp_all
qed

section \<open>Runs against the byte-range server\<close>

lemma ranges_pass_reply:
  assumes "files c p = Some bs" and "int (length bs) < total_size"
    and "min (int (length bs) + block_size) total_size = pos_end"
    and "srv (length (sent c)) (range_request c file_url (int (length bs)) pos_end) = Reply response"
    and "ok response"
  shows "\<exists>c'. ranges_iteration srv file_url (Path p) chunk_size block_size total_size c
               = (Inr (if total_size \<le> pos_end then Break else Continue), c')
            \<and> files c' p = Some (bs @ content response)
            \<and> sent c' = sent c @ [range_request c file_url (int (length bs)) pos_end]
            \<and> session_headers c'
                = req_headers (range_request c file_url (int (length bs)) pos_end)"
  using ranges_iteration_request [OF assms(1-3) refl, where file_url = file_url and srv = srv
      and chunk_size = chunk_size] assms(4,5)
  by (simp add: after_request_def)

text \<open>
  No progress in the last window: when the window reaches the end of the resource, the
  second \<^verbatim>\<open>break\<close> ends the loop after one pass and the size check fails.
\<close>

lemma download_ranges_last_window:
  assumes "head srv (if resume then c else file_del c (Path p)) file_url = (Inr response, c1)"
    and "file_size response = total_size"
    and "\<And>i r. meth r = ''GET'' \<Longrightarrow>
           \<exists>response. srv i r = Reply response \<and> ok response \<and> content response = []"
    and "files (open_ab c1 (Path p)) p = Some bs"
    and "int (length bs) < total_size"
    and "total_size \<le> int (length bs) + block_size"
    and "total_size \<noteq> 0"
  shows "\<exists>c'. download_ranges srv c file_url (Path p) chunk_size block_size resume debug
                = Some (Inr False, c')
           \<and> files c' p = Some bs
           \<and> sent c' = sent (open_ab c1 (Path p))
                @ [range_request (open_ab c1 (Path p)) file_url (int (length bs)) total_size]"
proof -
  define d where "d = open_ab c1 (Path p)"
  define r where "r = range_request d file_url (int (length bs)) total_size"
  have pe: "min (int (length bs) + block_size) total_size = total_size"
    using assms(6) by simp
  have "meth r = ''GET''" by (simp add: r_def range_request_def)
  from assms(3) [OF this, of "length (sent d)"]
  obtain rp where rp: "srv (length (sent d)) r = Reply rp" and okr: "ok rp"
    and emp: "content rp = []" by blast
  from ranges_pass_reply [where srv = srv and c = d and file_url = file_url
      and chunk_size = chunk_size and response = rp,
      OF assms(4) [folded d_def] assms(5) pe rp [unfolded r_def] okr]
  obtain c' where it: "ranges_iteration srv file_url (Path p) chunk_size block_size total_size d
                         = (Inr Break, c')"
    and f: "files c' p = Some bs" and s: "sent c' = sent d @ [r]"
    by (auto simp: emp r_def)
  have st: "stat_st_size c' (Path p) = Inr (int (length bs))"
    by (simp add: stat_st_size_def f)
  have "download_ranges srv c file_url (Path p) chunk_size block_size resume debug
          = Some (Inr False, c')"
    unfolding download_ranges_sized [OF assms(1,2,7)] d_def [symmetric]
      ranges_loop_break [OF it]
    using assms(5) by (simp add: st)
  with f s show ?thesis unfolding d_def r_def by blast
qed

lemmas str_simps = py_str_def char_of_def bit_Suc_0_iff
lemmas int_simps = py_int_def strip_def is_space_def parse_unsigned_def is_digit_def digit_val_def
lemmas range_simps = range_server_def range_reply_def parse_range_def nat_of_digits_def is_digit_def



lemma range_server_pass:
  assumes "files c p = Some bs" and "int (length bs) < total_size"
    and "min (int (length bs) + block_size) total_size = pos_end"
    and "''bytes='' @ py_str (int (length bs)) @ ''-''
           @ (if pos_end \<noteq> 0 then py_str pos_end else []) = v"
    and "range_reply resource (Some v) = (206, body)"
  shows "\<exists>c'. ranges_iteration (range_server resource) file_url (Path p) chunk_size block_size
                 total_size c
               = (Inr (if total_size \<le> pos_end then Break else Continue), c')
            \<and> files c' p = Some (bs @ body)
            \<and> range_log c' = range_log c @ [(''GET'', Some v)]
            \<and> session_headers c' ''range'' = Some v"
proof -
  let ?r = "range_request c file_url (int (length bs)) pos_end"
  let ?resp = "\<lparr>status_code = 206,
                 headers = [''accept-ranges'' \<mapsto> ''bytes'',
                            ''content-length'' \<mapsto> py_str (int (length body))],
                 content = body\<rparr>"
  have hv: "req_headers ?r ''range'' = Some v" and m: "meth ?r = ''GET''"
    using assms(4) by (simp_all add: range_request_def)
  have rp: "range_server resource (length (sent c)) ?r = Reply ?resp"
    by (simp add: range_server_def hv assms(5) m)
  have "ok ?resp" by (simp add: ok_def)
  from ranges_pass_reply [where srv = "range_server resource" and c = c and file_url = file_url
      and response = ?resp and chunk_size = chunk_size, OF assms(1-3) rp this] hv m
  show ?thesis by (auto simp: range_log_def)
qed


text \<open>
  Claim C2. The example of the claim, run against a server that serves byte ranges as
  RFC 9110 defines them: 5,000,000 bytes, block size 1,048,576, empty destination. The
  download succeeds in 5 passes, but the Range headers sent are \<^verbatim>\<open>bytes=0-1048576\<close>,
  \<^verbatim>\<open>bytes=1048577-2097153\<close> and so on: the end position that
  \<^verbatim>\<open>_resume_download\<close> writes is the window end itself, which a byte range
  includes, so each request covers one byte more than the block size and the windows
  start at 0, 1048577, 2097154, 3145731 and 4194308.
\<close>

theorem ranges_example_windows:
  "\<exists>c'. download_ranges (range_server (replicate 5000000 0)) (new_downloader ''ua'' Map.empty) ''u''
           (Path ''f'') 1024 1048576 False False = Some (Inr True, c')
      \<and> files c' ''f'' = Some (replicate 5000000 0)
      \<and> range_log c'
          = [(''HEAD'', None), (''GET'', Some ''bytes=0-1048576''), (''GET'', Some ''bytes=1048577-2097153''), (''GET'', Some ''bytes=2097154-3145730''), (''GET'', Some ''bytes=3145731-4194307''), (''GET'', Some ''bytes=4194308-5000000'')]"
proof -
  let ?srv = "range_server (replicate 5000000 0)"
  let ?cn = "new_downloader ''ua'' Map.empty"
  let ?cd = "if False then ?cn else file_del ?cn (Path ''f'')"
  let ?ch = "?cd\<lparr>sent := sent ?cd @ [head_request ?cd ''u'']\<rparr>"
  let ?resp = "\<lparr>status_code = 200,
                 headers = [''accept-ranges'' \<mapsto> ''bytes'', ''content-length'' \<mapsto> ''5000000''],
                 content = []\<rparr>"
  define c2 where "c2 = open_ab ?ch (Path ''f'')"
  have h: "head ?srv ?cd ''u'' = (Inr (Some ?resp), ?ch)"
    by (simp add: head_eq head_request_def new_downloader_def file_del_def range_simps str_simps)
  have sz: "file_size (Some ?resp) = 5000000"
    by (simp add: file_size_def ok_def int_simps)
  have f2: "files c2 ''f'' = Some (replicate 0 0)" and l2: "range_log c2 = [(''HEAD'', None)]"
    by (simp_all add: c2_def open_ab_def file_del_def new_downloader_def head_request_def
        range_log_def)
  have "\<exists>c'. ranges_iteration ?srv ''u'' (Path ''f'') 1024 1048576 5000000 c2
               = (Inr (if (5000000::int) \<le> 1048576 then Break else Continue), c')
            \<and> files c' ''f'' = Some (replicate 0 0 @ (0 # replicate 1048576 0))
            \<and> range_log c' = range_log c2 @ [(''GET'', Some ''bytes=0-1048576'')]
            \<and> session_headers c' ''range'' = Some ''bytes=0-1048576''"
    by (rule range_server_pass [OF f2]) (simp_all add: range_simps str_simps)
  then obtain c3 where it2: "ranges_iteration ?srv ''u'' (Path ''f'') 1024 1048576 5000000 c2
               = (Inr Continue, c3)"
    and f3: "files c3 ''f'' = Some (replicate 1048577 0)"
    and l3: "range_log c3 = range_log c2 @ [(''GET'', Some ''bytes=0-1048576'')]"
    by (auto simp flip: replicate_add replicate_Suc)
  have "\<exists>c'. ranges_iteration ?srv ''u'' (Path ''f'') 1024 1048576 5000000 c3
               = (Inr (if (5000000::int) \<le> 2097153 then Break else Continue), c')
            \<and> files c' ''f'' = Some (replicate 1048577 0 @ replicate 1048577 0)
            \<and> range_log c' = range_log c3 @ [(''GET'', Some ''bytes=1048577-2097153'')]
            \<and> session_headers c' ''range'' = Some ''bytes=1048577-2097153''"
    by (rule range_server_pass [OF f3]) (simp_all add: range_simps str_simps)
  then obtain c4 where it3: "ranges_iteration ?srv ''u'' (Path ''f'') 1024 1048576 5000000 c3
               = (Inr Continue, c4)"
    and f4: "files c4 ''f'' = Some (replicate 2097154 0)"
    and l4: "range_log c4 = range_log c3 @ [(''GET'', Some ''bytes=1048577-2097153'')]"
    by (auto simp flip: replicate_add replicate_Suc)
  have "\<exists>c'. ranges_iteration ?srv ''u'' (Path ''f'') 1024 1048576 5000000 c4
               = (Inr (if (5000000::int) \<le> 3145730 then Break else Continue), c')
            \<and> files c' ''f'' = Some (replicate 2097154 0 @ replicate 1048577 0)
            \<and> range_log c' = range_log c4 @ [(''GET'', Some ''bytes=2097154-3145730'')]
            \<and> session_headers c' ''range'' = Some ''bytes=2097154-3145730''"
    by (rule range_server_pass [OF f4]) (simp_all add: range_simps str_simps)
  then obtain c5 where it4: "ranges_iteration ?srv ''u'' (Path ''f'') 1024 1048576 5000000 c4
               = (Inr Continue, c5)"
    and f5: "files c5 ''f'' = Some (replicate 3145731 0)"
    and l5: "range_log c5 = range_log c4 @ [(''GET'', Some ''bytes=2097154-3145730'')]"
    by (auto simp flip: replicate_add replicate_Suc)
  have "\<exists>c'. ranges_iteration ?srv ''u'' (Path ''f'') 1024 1048576 5000000 c5
               = (Inr (if (5000000::int) \<le> 4194307 then Break else Continue), c')
            \<and> files c' ''f'' = Some (replicate 3145731 0 @ replicate 1048577 0)
            \<and> range_log c' = range_log c5 @ [(''GET'', Some ''bytes=3145731-4194307'')]
            \<and> session_headers c' ''range'' = Some ''bytes=3145731-4194307''"
    by (rule range_server_pass [OF f5]) (simp_all add: range_simps str_simps)
  then obtain c6 where it5: "ranges_iteration ?srv ''u'' (Path ''f'') 1024 1048576 5000000 c5
               = (Inr Continue, c6)"
    and f6: "files c6 ''f'' = Some (replicate 4194308 0)"
    and l6: "range_log c6 = range_log c5 @ [(''GET'', Some ''bytes=3145731-4194307'')]"
    by (auto simp flip: replicate_add replicate_Suc)
  have "\<exists>c'. ranges_iteration ?srv ''u'' (Path ''f'') 1024 1048576 5000000 c6
               = (Inr (if (5000000::int) \<le> 5000000 then Break else Continue), c')
            \<and> files c' ''f'' = Some (replicate 4194308 0 @ replicate 805692 0)
            \<and> range_log c' = range_log c6 @ [(''GET'', Some ''bytes=4194308-5000000'')]
            \<and> session_headers c' ''range'' = Some ''bytes=4194308-5000000''"
    by (rule range_server_pass [OF f6]) (simp_all add: range_simps str_simps)
  then obtain c7 where it6: "ranges_iteration ?srv ''u'' (Path ''f'') 1024 1048576 5000000 c6
               = (Inr Break, c7)"
    and f7: "files c7 ''f'' = Some (replicate 5000000 0)"
    and l7: "range_log c7 = range_log c6 @ [(''GET'', Some ''bytes=4194308-5000000'')]"
    by (auto simp flip: replicate_add replicate_Suc)
  have lp: "ranges_loop ?srv ''u'' (Path ''f'') 1024 1048576 5000000 c2 = Some (Inr (), c7)"
    by (simp only: ranges_loop_continue [OF it2] ranges_loop_continue [OF it3] ranges_loop_continue [OF it4] ranges_loop_continue [OF it5] ranges_loop_break [OF it6])
  have st: "stat_st_size c7 (Path ''f'') = Inr 5000000"
    by (simp add: stat_st_size_def f7)
  have "download_ranges ?srv ?cn ''u'' (Path ''f'') 1024 1048576 False False
      = (case ranges_loop ?srv ''u'' (Path ''f'') 1024 1048576 5000000 (open_ab ?ch (Path ''f'')) of
        None \<Rightarrow> None
      | Some (Inl e, c2) \<Rightarrow> Some (Inl e, c2)
      | Some (Inr u, c2) \<Rightarrow>
          (case stat_st_size c2 (Path ''f'') of
             Inl e \<Rightarrow> Some (Inl e, c2)
           | Inr fsize \<Rightarrow> Some (Inr (5000000 \<le> fsize), c2)))"
    by (rule download_ranges_sized [OF h sz]) simp
  then have "download_ranges ?srv ?cn ''u'' (Path ''f'') 1024 1048576 False False
      = Some (Inr True, c7)"
    unfolding c2_def [symmetric] lp by (simp add: st)
  then show ?thesis
    using f7 l2 l3 l4 l5 l6 l7 by simp
qed

section \<open>String destinations, and the result of a transfer\<close>

lemma ranges_iteration_str:
  "ranges_iteration srv file_url (Str s) chunk_size block_size total_size c = (Inl AttributeError, c)"
  by (simp add: ranges_iteration_def stat_st_size_def)

text \<open>
  Claim C10. A destination passed as a plain string: whenever the HEAD request gives a
  size other than 0, so that the loop is reached, \<^verbatim>\<open>download_ranges\<close> returns no
  boolean but raises AttributeError at the first \<^verbatim>\<open>file_out.stat()\<close>, with any
  server, chunk size, block size, \<^verbatim>\<open>resume\<close> and \<^verbatim>\<open>debug\<close>. The file has
  been opened (and so created) by then and no range request has been sent.
\<close>

theorem download_ranges_str_raises:
  assumes "head srv (if resume then c else file_del c (Str s)) file_url = (Inr response, c1)"
    and "file_size response \<noteq> 0"
  shows "download_ranges srv c file_url (Str s) chunk_size block_size resume debug
           = Some (Inl AttributeError, open_ab c1 (Str s))"
  by (simp add: download_ranges_sized [OF assms(1) refl assms(2)]
      ranges_loop_raise [OF ranges_iteration_str])

lemma get_eq:
  "get srv c file_url =
     (case srv (length (sent c)) \<lparr>meth = ''GET'', url = file_url, req_headers = session_headers c\<rparr> of
        Reply response \<Rightarrow> Inr (Some response)
      | Caught \<Rightarrow> Inr None
      | Uncaught \<Rightarrow> Inl RequestException,
      c\<lparr>sent := sent c @ [\<lparr>meth = ''GET'', url = file_url, req_headers = session_headers c\<rparr>]\<rparr>)"
  by (simp add: get_def req_def Let_def split: outcome.splits)

lemma download_direct_reply:
  assumes "srv (length (sent c)) \<lparr>meth = ''GET'', url = file_url, req_headers = session_headers c\<rparr>
             = Reply response"
    and "ok response"
  shows "download_direct srv c file_url (Path p) chunk_size debug
     = (Inr (file_size (Some response) \<le> int (length (content response))),
        c\<lparr>sent := sent c @ [\<lparr>meth = ''GET'', url = file_url, req_headers = session_headers c\<rparr>],
          files := (files c)(p \<mapsto> content response)\<rparr>)"
proof -
  let ?c1 = "c\<lparr>sent := sent c @ [\<lparr>meth = ''GET'', url = file_url, req_headers = session_headers c\<rparr>]\<rparr>"
  have g: "get srv c file_url = (Inr (Some response), ?c1)"
    by (simp add: get_eq assms(1))
  have "files (open_wb ?c1 (Path p)) (path_of (Path p)) = Some []"
    by (simp add: open_wb_def)
  from write_body [OF this, of response chunk_size]
  have w: "fold (file_write (Path p)) (iter_content response chunk_size) (open_wb ?c1 (Path p))
         = ?c1\<lparr>files := (files c)(p \<mapsto> content response)\<rparr>"
    by (simp add: open_wb_def)
  show ?thesis
    unfolding download_direct_def g prod.case sum.case option.case Let_def w
    using assms(2) by (simp add: stat_st_size_def)
qed




section \<open>Resuming\<close>

lemma ranges_loop_first_request:
  assumes "ranges_loop srv file_url (Path p) chunk_size block_size total_size c = Some (res, c')"
    and "files c p = Some bs" and "int (length bs) < total_size"
  shows "\<exists>suf rs. files c' p = Some (bs @ suf)
          \<and> sent c' = sent c @ range_request c file_url (int (length bs))
                                  (min (int (length bs) + block_size) total_size) # rs"
proof -
  define r where "r = range_request c file_url (int (length bs))
                        (min (int (length bs) + block_size) total_size)"
  note it = ranges_iteration_request [OF assms(2,3) refl r_def [symmetric],
      where srv = srv and chunk_size = chunk_size]
  have a: "sent (after_request c r) = sent c @ [r]" and b: "files (after_request c r) p = Some bs"
    using assms(2) by (simp_all add: after_request_def)
  show ?thesis
  proof (cases "srv (length (sent c)) r")
    case Caught
    with it assms(1) have "c' = after_request c r"
      by (simp add: ranges_loop.simps)
    with a b show ?thesis unfolding r_def by simp
  next
    case Uncaught
    with it assms(1) have "c' = after_request c r"
      by (simp add: ranges_loop.simps)
    with a b show ?thesis unfolding r_def by simp
  next
    case (Reply response)
    show ?thesis
    proof (cases "ok response")
      case False
      with Reply it assms(1) have "c' = after_request c r"
        by (simp add: ranges_loop.simps)
      with a b show ?thesis unfolding r_def by simp
    next
      case True
      define c2 where "c2 = (after_request c r)\<lparr>files := (files c)(p \<mapsto> bs @ content response)\<rparr>"
      have f2: "files c2 (path_of (Path p)) = Some (bs @ content response)"
        and s2: "sent c2 = sent c @ [r]"
        by (simp_all add: c2_def after_request_def)
      show ?thesis
      proof (cases "total_size \<le> min (int (length bs) + block_size) total_size")
        case brk: True
        with True Reply it assms(1) have "c' = c2"
          by (simp add: ranges_loop.simps c2_def)
        with f2 s2 show ?thesis unfolding r_def by simp
      next
        case cont: False
        with True Reply it have "ranges_iteration srv file_url (Path p) chunk_size block_size
            total_size c = (Inr Continue, c2)"
          by (simp add: c2_def)
        from ranges_loop_continue [OF this] assms(1)
        have "ranges_loop srv file_url (Path p) chunk_size block_size total_size c2
                = Some (res, c')" by simp
        from ranges_loop_appends [OF this f2]
        obtain suf rs where "files c' p = Some ((bs @ content response) @ suf)"
          and "sent c' = sent c2 @ rs" by auto
        with s2 show ?thesis unfolding r_def by simp
      qed
    qed
  qed
qed

lemma head_file_del:
  "head srv c file_url = (res, c1) \<Longrightarrow>
   head srv (file_del c fo) file_url = (res, file_del c1 fo)"
  by (auto simp: head_eq file_del_def head_request_def)

lemma range_request_cong:
  "session_headers c = session_headers d \<Longrightarrow>
   range_request c file_url a b = range_request d file_url a b"
  by (simp add: range_request_def)

lemma head_request_file_del [simp]:
  "head_request (file_del c fo) file_url = head_request c file_url"
  by (simp add: head_request_def file_del_def)

lemma opened_after_head:
  assumes "head srv c file_url = (res, c1)"
    and "(case files c p of None \<Rightarrow> [] | Some bs \<Rightarrow> bs) = pre"
  shows "files (open_ab c1 (Path p)) p = Some pre"
    and "sent (open_ab c1 (Path p)) = sent c @ [head_request c file_url]"
    and "session_headers (open_ab c1 (Path p)) = session_headers c"
  using assms by (auto simp: head_eq open_ab_def split: option.splits)

lemma first_pass_request:
  assumes "head srv c file_url = (res, c1)"
    and "(case files c p of None \<Rightarrow> [] | Some bs \<Rightarrow> bs) = pre"
    and "int (length pre) < total_size"
  shows "sent (snd (ranges_iteration srv file_url (Path p) chunk_size block_size total_size
                      (open_ab c1 (Path p))))
          = sent c @ [head_request c file_url,
                      range_request c file_url (int (length pre))
                        (min (int (length pre) + block_size) total_size)]"
proof -
  define d where "d = open_ab c1 (Path p)"
  note o = opened_after_head [OF assms(1,2), folded d_def]
  have rr: "range_request d file_url a b = range_request c file_url a b" for a b
    by (rule range_request_cong) (rule o(3))
  note it = ranges_iteration_request [OF o(1) assms(3) refl refl,
      where srv = srv and chunk_size = chunk_size and file_url = file_url
        and block_size = block_size]
  show ?thesis
    unfolding d_def [symmetric] it rr
    by (cases "srv (length (sent d)) (range_request c file_url (int (length pre))
                 (min (int (length pre) + block_size) total_size))")
      (simp_all add: after_request_def o(2))
qed

lemma resumed_on_return:
  assumes "head srv c file_url = (Inr response, c1)"
    and "(case files c p of None \<Rightarrow> [] | Some bs \<Rightarrow> bs) = pre"
    and "file_size response = total_size" and "int (length pre) < total_size"
    and "total_size \<noteq> 0"
    and "download_ranges srv c file_url (Path p) chunk_size block_size True debug = Some (res, c')"
  shows "\<exists>suf rs. files c' p = Some (pre @ suf)
           \<and> sent c' = sent c @ [head_request c file_url,
                                  range_request c file_url (int (length pre))
                                    (min (int (length pre) + block_size) total_size)] @ rs
           \<and> (res = Inr True \<longrightarrow> total_size \<le> int (length (pre @ suf)))"
proof -
  define d where "d = open_ab c1 (Path p)"
  note o = opened_after_head [OF assms(1,2), folded d_def]
  have rr: "range_request d file_url a b = range_request c file_url a b" for a b
    by (rule range_request_cong) (rule o(3))
  have h: "head srv (if True then c else file_del c (Path p)) file_url = (Inr response, c1)"
    using assms(1) by simp
  note dr = download_ranges_sized [OF h assms(3,5), of chunk_size block_size debug,
      folded d_def]
  from assms(6) obtain lres where
    lp: "ranges_loop srv file_url (Path p) chunk_size block_size total_size d = Some (lres, c')"
    unfolding dr by (auto split: option.splits sum.splits)
  from ranges_loop_first_request [OF lp o(1) assms(4)]
  obtain suf rs where fs: "files c' p = Some (pre @ suf)"
    and se: "sent c' = sent d @ range_request c file_url (int (length pre))
                                   (min (int (length pre) + block_size) total_size) # rs"
    unfolding rr by blast
  have "total_size \<le> int (length (pre @ suf))" if "res = Inr True"
    using assms(6) that fs unfolding dr lp
    by (auto simp: stat_st_size_def split: sum.splits)
  with fs se show ?thesis by (auto simp: o(2))
qed

lemma download_ranges_fresh:
  "download_ranges srv c file_url fo chunk_size block_size False debug
     = download_ranges srv (file_del c fo) file_url fo chunk_size block_size True debug"
  by (simp add: download_ranges_def)

text \<open>
  Claim C4. The destination holds \<open>pre\<close>, the first \<open>k\<close> bytes (\<open>0 < k < N\<close>, where
  \<open>N\<close> is the size the HEAD response gives). With \<^verbatim>\<open>resume=True\<close> the first pass of
  the loop sends a range request that starts at offset \<open>k\<close>, whether or not the call
  returns; when the call returns, by value or by exception, the file is \<open>pre\<close> followed
  by what was appended, the requests sent are the HEAD request, that range request and
  the later ones, and a return of True means a file of at least \<open>N\<close> bytes. With
  \<^verbatim>\<open>resume=False\<close> the call is the resumed call on the file system without the
  destination, and its first range request starts at offset 0.
\<close>

theorem resume_appends_to_prefix:
  assumes "files c p = Some pre" and "0 < length pre"
    and "head srv c file_url = (Inr response, c1)"
    and "file_size response = total_size" and "int (length pre) < total_size"
  shows "sent (snd (ranges_iteration srv file_url (Path p) chunk_size block_size total_size
                      (open_ab c1 (Path p))))
          = sent c @ [head_request c file_url,
                      range_request c file_url (int (length pre))
                        (min (int (length pre) + block_size) total_size)]
    \<and> (\<forall>res c'. download_ranges srv c file_url (Path p) chunk_size block_size True debug
                   = Some (res, c') \<longrightarrow>
          (\<exists>suf rs. files c' p = Some (pre @ suf)
             \<and> sent c' = sent c @ [head_request c file_url,
                                    range_request c file_url (int (length pre))
                                      (min (int (length pre) + block_size) total_size)] @ rs
             \<and> (res = Inr True \<longrightarrow> total_size \<le> int (length (pre @ suf)))))
    \<and> download_ranges srv c file_url (Path p) chunk_size block_size False debug
        = download_ranges srv (file_del c (Path p)) file_url (Path p) chunk_size block_size
            True debug
    \<and> (\<forall>res c'. download_ranges srv c file_url (Path p) chunk_size block_size False debug
                   = Some (res, c') \<longrightarrow>
          (\<exists>body rs. files c' p = Some body
             \<and> sent c' = sent c @ [head_request c file_url,
                                    range_request c file_url 0 (min block_size total_size)] @ rs
             \<and> (res = Inr True \<longrightarrow> total_size \<le> int (length body))))"
proof -
  have pre: "(case files c p of None \<Rightarrow> [] | Some bs \<Rightarrow> bs) = pre"
    using assms(1) by simp
  have nz: "total_size \<noteq> 0" and pos: "int (length ([]::byte list)) < total_size"
    using assms(5) by simp_all
  let ?d = "file_del c (Path p)"
  have hd: "head srv ?d file_url = (Inr response, file_del c1 (Path p))"
    using assms(3) by (rule head_file_del)
  have emp: "(case files ?d p of None \<Rightarrow> [] | Some bs \<Rightarrow> bs) = []"
    by (simp add: file_del_def)
  have sd: "sent ?d = sent c" and rd: "range_request ?d file_url a b = range_request c file_url a b"
    for a b
    by (simp_all add: file_del_def range_request_def)
  have fresh: "\<exists>body rs. files c' p = Some body
             \<and> sent c' = sent c @ [head_request c file_url,
                                    range_request c file_url 0 (min block_size total_size)] @ rs
             \<and> (res = Inr True \<longrightarrow> total_size \<le> int (length body))"
    if "download_ranges srv c file_url (Path p) chunk_size block_size False debug = Some (res, c')"
    for res c'
    using resumed_on_return [OF hd emp assms(4) pos nz, of chunk_size block_size debug res c']
      that
    by (simp add: download_ranges_fresh sd rd)
  show ?thesis
    using first_pass_request [OF assms(3) pre assms(5), of chunk_size block_size]
      resumed_on_return [OF assms(3) pre assms(4,5) nz, of chunk_size block_size debug]
      download_ranges_fresh [of srv c file_url "Path p" chunk_size block_size debug]
      fresh
    by blast
qed

section \<open>The probe, the range flag and the error window\<close>







text \<open>
  Claim C8. \<^verbatim>\<open>_has_range\<close> looks for the header's name only: a response with
  \<^verbatim>\<open>Accept-Ranges: none\<close>, by which a server declares that it does not accept range
  requests, is reported as range capable, and \<^verbatim>\<open>download\<close> takes the ranged path
  against such a server: after its probe it calls \<^verbatim>\<open>download_ranges\<close>, which
  probes again and sends a GET with a Range header.
\<close>

theorem has_range_accepts_none:
  "has_range \<lparr>status_code = 200,
              headers = [''accept-ranges'' \<mapsto> ''none'', ''content-length'' \<mapsto> ''3''],
              content = []\<rparr>
   \<and> (\<exists>c'. download (accept_none_server [1, 2, 3]) (new_downloader ''ua'' Map.empty) ''u''
              (Path ''f'') False = Some (Inr True, c')
          \<and> range_log c' = [(''HEAD'', None), (''HEAD'', None), (''GET'', Some ''bytes=0-3'')]
          \<and> files c' ''f'' = Some [1, 2, 3])"
proof -
  let ?srv = "accept_none_server [1, 2, 3]"
  let ?cn = "new_downloader ''ua'' Map.empty"
  let ?resp = "\<lparr>status_code = 200,
                 headers = [''accept-ranges'' \<mapsto> ''none'', ''content-length'' \<mapsto> ''3''],
                 content = []\<rparr>"
  let ?body = "\<lparr>status_code = 200,
                 headers = [''accept-ranges'' \<mapsto> ''none'', ''content-length'' \<mapsto> ''3''],
                 content = [1, 2, 3]\<rparr>"
  define ca where "ca = ?cn\<lparr>sent := sent ?cn @ [head_request ?cn ''u'']\<rparr>"
  define cb where "cb = (if False then ca else file_del ca (Path ''f''))"
  define cc where "cc = cb\<lparr>sent := sent cb @ [head_request cb ''u'']\<rparr>"
  define d where "d = open_ab cc (Path ''f'')"
  have hr: "has_range ?resp" by (simp add: has_range_def)
  have sz: "file_size (Some ?resp) = 3"
    by (simp add: file_size_def ok_def int_simps)
  have h1: "head ?srv ?cn ''u'' = (Inr (Some ?resp), ca)"
    by (simp add: head_eq ca_def accept_none_server_def head_request_def str_simps)
  have h2: "head ?srv (if False then ca else file_del ca (Path ''f'')) ''u''
              = (Inr (Some ?resp), cc)"
    by (simp add: head_eq cc_def cb_def accept_none_server_def head_request_def str_simps)
  have fd: "files d ''f'' = Some []"
    and ld: "range_log d = [(''HEAD'', None), (''HEAD'', None)]"
    and hd: "session_headers d = [''user-agent'' \<mapsto> ''ua'']"
    by (simp_all add: d_def cc_def cb_def ca_def open_ab_def file_del_def new_downloader_def
        head_request_def range_log_def)
  have rq: "range_request d ''u'' 0 3
            = \<lparr>meth = ''GET'', url = ''u'',
               req_headers = [''user-agent'' \<mapsto> ''ua'', ''range'' \<mapsto> ''bytes=0-3'']\<rparr>"
    by (simp add: range_request_def hd str_simps)
  have rp: "?srv (length (sent d)) (range_request d ''u'' (int (length ([]::byte list))) 3)
              = Reply ?body"
    by (simp add: rq accept_none_server_def str_simps)
  from ranges_pass_reply [where srv = ?srv and c = d and file_url = "''u''"
      and chunk_size = 1024 and block_size = "1024 * 1024" and total_size = 3
      and response = ?body and p = "''f''" and bs = "[]" and pos_end = 3, OF fd _ _ rp]
  obtain c' where it: "ranges_iteration ?srv ''u'' (Path ''f'') 1024 (1024 * 1024) 3 d
                         = (Inr Break, c')"
    and f: "files c' ''f'' = Some [1, 2, 3]"
    and s: "sent c' = sent d @ [range_request d ''u'' (int (length ([]::byte list))) 3]"
    by (auto simp: ok_def)
  have l: "range_log c' = [(''HEAD'', None), (''HEAD'', None), (''GET'', Some ''bytes=0-3'')]"
    using ld by (simp add: range_log_def s rq)
  have st: "stat_st_size c' (Path ''f'') = Inr 3"
    by (simp add: stat_st_size_def f)
  have "download_ranges ?srv ca ''u'' (Path ''f'') 1024 (1024 * 1024) False False
          = Some (Inr True, c')"
    unfolding download_ranges_sized [OF h2 sz, simplified] d_def [symmetric]
      ranges_loop_break [OF it]
    by (simp add: st)
  then have "download ?srv ?cn ''u'' (Path ''f'') False = Some (Inr True, c')"
    by (simp add: download_def h1 sz hr)
  with hr l f show ?thesis by blast
qed

text \<open>
  Claim C6. A client with delaying enabled sends a GET that is answered 200 and then a
  GET that is answered 429. The first response is returned and is no error response, yet
  the error window, empty before, holds one entry after it: \<^verbatim>\<open>req\<close> adds the entry
  for every response it receives, whatever its status. After the second request the
  window holds two entries, and \<^verbatim>\<open>_backoff\<close> computes its delay from the error count
  2: with the random draw 0 the delay is 8, where the count 1 of the one failure gives 4.
\<close>

theorem client_req_counts_success_as_error:
  "(let c0 = new_client ''ua'' False True;
        (r1, c1) = client_req ok_then_limited_server 100 c0 ''GET'' ''u'' False;
        (r2, c2) = client_req ok_then_limited_server 101 c1 ''GET'' ''u'' False
    in map_option (\<lambda>m. cache_size m 100) (errors c0) = Some 0
     \<and> r1 = Inr (Some \<lparr>status_code = 200, headers = Map.empty, content = []\<rparr>)
     \<and> ok \<lparr>status_code = 200, headers = Map.empty, content = []\<rparr>
     \<and> map_option (\<lambda>m. cache_size m 100) (errors c1) = Some 1
     \<and> r2 = Inr (Some \<lparr>status_code = 429, headers = Map.empty, content = []\<rparr>)
     \<and> map_option (\<lambda>m. cache_size m 101) (errors c2) = Some 2
     \<and> fst (client_backoff 101 c2 (Some \<lparr>status_code = 429, headers = Map.empty, content = []\<rparr>)
              True 0) = Inr 8
     \<and> backoff 1 2 1 (1 / 10) True 0 = Inr 4)"
  by (simp add: client_req_def new_client_def new_cache_def cache_add_def cache_size_def ok_def
      ok_then_limited_server_def client_backoff_def is_limited_def backoff_def more_than_def
      between_def pow2_def Let_def)

section \<open>Two passes, and a direct download after them\<close>

lemma range_log_append [simp]:
  "range_log (c\<lparr>sent := sent c @ [r]\<rparr>) = range_log c @ [(meth r, req_headers r ''range'')]"
  by (simp add: range_log_def)

lemma two_pass_run:
  "\<exists>c'. download_ranges (range_server [1, 2, 3, 4, 5]) (new_downloader ''ua'' Map.empty) ''u''
           (Path ''f'') 1024 2 False False = Some (Inr True, c')
      \<and> files c' ''f'' = Some [1, 2, 3, 4, 5]
      \<and> range_log c'
          = [(''HEAD'', None), (''GET'', Some ''bytes=0-2''), (''GET'', Some ''bytes=3-5'')]
      \<and> session_headers c' ''range'' = Some ''bytes=3-5''"
proof -
  let ?srv = "range_server [1, 2, 3, 4, 5]"
  let ?cn = "new_downloader ''ua'' Map.empty"
  let ?cd = "if False then ?cn else file_del ?cn (Path ''f'')"
  let ?ch = "?cd\<lparr>sent := sent ?cd @ [head_request ?cd ''u'']\<rparr>"
  let ?resp = "\<lparr>status_code = 200,
                 headers = [''accept-ranges'' \<mapsto> ''bytes'', ''content-length'' \<mapsto> ''5''],
                 content = []\<rparr>"
  define c2 where "c2 = open_ab ?ch (Path ''f'')"
  have h: "head ?srv ?cd ''u'' = (Inr (Some ?resp), ?ch)"
    by (simp add: head_eq head_request_def new_downloader_def file_del_def range_simps str_simps)
  have sz: "file_size (Some ?resp) = 5"
    by (simp add: file_size_def ok_def int_simps)
  have f2: "files c2 ''f'' = Some []" and l2: "range_log c2 = [(''HEAD'', None)]"
    by (simp_all add: c2_def open_ab_def file_del_def new_downloader_def head_request_def
        range_log_def)
  have "\<exists>c'. ranges_iteration ?srv ''u'' (Path ''f'') 1024 2 5 c2
               = (Inr (if (5::int) \<le> 2 then Break else Continue), c')
            \<and> files c' ''f'' = Some ([] @ [1, 2, 3])
            \<and> range_log c' = range_log c2 @ [(''GET'', Some ''bytes=0-2'')]
            \<and> session_headers c' ''range'' = Some ''bytes=0-2''"
    by (rule range_server_pass [OF f2]) (simp_all add: range_simps str_simps)
  then obtain c3 where it2: "ranges_iteration ?srv ''u'' (Path ''f'') 1024 2 5 c2
               = (Inr Continue, c3)"
    and f3: "files c3 ''f'' = Some [1, 2, 3]"
    and l3: "range_log c3 = range_log c2 @ [(''GET'', Some ''bytes=0-2'')]"
    by auto
  have "\<exists>c'. ranges_iteration ?srv ''u'' (Path ''f'') 1024 2 5 c3
               = (Inr (if (5::int) \<le> 5 then Break else Continue), c')
            \<and> files c' ''f'' = Some ([1, 2, 3] @ [4, 5])
            \<and> range_log c' = range_log c3 @ [(''GET'', Some ''bytes=3-5'')]
            \<and> session_headers c' ''range'' = Some ''bytes=3-5''"
    by (rule range_server_pass [OF f3]) (simp_all add: range_simps str_simps)
  then obtain c4 where it3: "ranges_iteration ?srv ''u'' (Path ''f'') 1024 2 5 c3
               = (Inr Break, c4)"
    and f4: "files c4 ''f'' = Some [1, 2, 3, 4, 5]"
    and l4: "range_log c4 = range_log c3 @ [(''GET'', Some ''bytes=3-5'')]"
    and h4: "session_headers c4 ''range'' = Some ''bytes=3-5''"
    by auto
  have lp: "ranges_loop ?srv ''u'' (Path ''f'') 1024 2 5 c2 = Some (Inr (), c4)"
    by (simp only: ranges_loop_continue [OF it2] ranges_loop_break [OF it3])
  have st: "stat_st_size c4 (Path ''f'') = Inr 5"
    by (simp add: stat_st_size_def f4)
  have "download_ranges ?srv ?cn ''u'' (Path ''f'') 1024 2 False False
      = (case ranges_loop ?srv ''u'' (Path ''f'') 1024 2 5 (open_ab ?ch (Path ''f'')) of
        None \<Rightarrow> None
      | Some (Inl e, c2) \<Rightarrow> Some (Inl e, c2)
      | Some (Inr u, c2) \<Rightarrow>
          (case stat_st_size c2 (Path ''f'') of
             Inl e \<Rightarrow> Some (Inl e, c2)
           | Inr fsize \<Rightarrow> Some (Inr (5 \<le> fsize), c2)))"
    by (rule download_ranges_sized [OF h sz]) simp
  then have "download_ranges ?srv ?cn ''u'' (Path ''f'') 1024 2 False False
      = Some (Inr True, c4)"
    unfolding c2_def [symmetric] lp by (simp add: st)
  then show ?thesis
    using f4 l2 l3 l4 h4 by simp
qed

text \<open>
  Claim C7. One client downloads a resource of 5 bytes by ranges (block size 2) and then
  calls \<^verbatim>\<open>download_direct\<close>: the GET of the direct download still carries the last
  Range header of the ranged download, \<^verbatim>\<open>bytes=3-5\<close>, so the server sends the last
  two bytes only, and \<^verbatim>\<open>download_direct\<close> returns True for a file that holds
  those two bytes.
\<close>

theorem range_header_outlives_ranged_download:
  "\<exists>c1 c2. download_ranges (range_server [1, 2, 3, 4, 5]) (new_downloader ''ua'' Map.empty) ''u''
              (Path ''f'') 1024 2 False False = Some (Inr True, c1)
      \<and> download_direct (range_server [1, 2, 3, 4, 5]) c1 ''u'' (Path ''g'') 1024 False
          = (Inr True, c2)
      \<and> range_log c2
          = [(''HEAD'', None), (''GET'', Some ''bytes=0-2''), (''GET'', Some ''bytes=3-5''),
             (''GET'', Some ''bytes=3-5'')]
      \<and> files c2 ''g'' = Some [4, 5]"
proof -
  let ?srv = "range_server [1, 2, 3, 4, 5]"
  from two_pass_run obtain c1 where
    dr: "download_ranges ?srv (new_downloader ''ua'' Map.empty) ''u'' (Path ''f'') 1024 2
           False False = Some (Inr True, c1)"
    and l1: "range_log c1
          = [(''HEAD'', None), (''GET'', Some ''bytes=0-2''), (''GET'', Some ''bytes=3-5'')]"
    and h1: "session_headers c1 ''range'' = Some ''bytes=3-5''"
    by blast
  let ?r = "\<lparr>meth = ''GET'', url = ''u'', req_headers = session_headers c1\<rparr>"
  let ?resp = "\<lparr>status_code = 206,
                 headers = [''accept-ranges'' \<mapsto> ''bytes'', ''content-length'' \<mapsto> ''2''],
                 content = [4, 5]\<rparr>"
  have rp: "?srv (length (sent c1)) ?r = Reply ?resp"
    by (simp add: h1 range_simps str_simps)
  have okr: "ok ?resp" by (simp add: ok_def)
  have sz: "file_size (Some ?resp) = 2"
    by (simp add: file_size_def ok_def int_simps)
  from download_direct_reply [where srv = ?srv and c = c1 and file_url = "''u''" and p = "''g''"
      and chunk_size = 1024 and debug = False, OF rp okr]
  have "download_direct ?srv c1 ''u'' (Path ''g'') 1024 False
          = (Inr True, c1\<lparr>sent := sent c1 @ [?r], files := (files c1)(''g'' \<mapsto> [4, 5])\<rparr>)"
    by (simp add: sz)
  moreover have "range_log (c1\<lparr>sent := sent c1 @ [?r], files := (files c1)(''g'' \<mapsto> [4, 5])\<rparr>)
      = range_log c1 @ [(''GET'', Some ''bytes=3-5'')]"
    by (simp add: range_log_def h1)
  ultimately show ?thesis using dr l1 by auto
qed

section \<open>Witnesses\<close>

theorem download_ranges_str_raises_witness:
  "file_size (Some \<lparr>status_code = 200,
                    headers = [''accept-ranges'' \<mapsto> ''bytes'', ''content-length'' \<mapsto> ''3''],
                    content = []\<rparr>) = 3
   \<and> download_ranges (range_server [1, 2, 3]) (new_downloader ''ua'' Map.empty) ''u''
        (Str ''f'') 1024 (1024 * 1024) False False
      = Some (Inl AttributeError,
              \<lparr>session_headers = [''user-agent'' \<mapsto> ''ua''], files = [''f'' \<mapsto> []],
               sent = [\<lparr>meth = ''HEAD'', url = ''u'',
                        req_headers = [''user-agent'' \<mapsto> ''ua'']\<rparr>]\<rparr>)"
proof -
  let ?srv = "range_server [1, 2, 3]"
  let ?cn = "new_downloader ''ua'' Map.empty"
  let ?cd = "if False then ?cn else file_del ?cn (Str ''f'')"
  let ?ch = "?cd\<lparr>sent := sent ?cd @ [head_request ?cd ''u'']\<rparr>"
  let ?resp = "\<lparr>status_code = 200,
                 headers = [''accept-ranges'' \<mapsto> ''bytes'', ''content-length'' \<mapsto> ''3''],
                 content = []\<rparr>"
  have h: "head ?srv ?cd ''u'' = (Inr (Some ?resp), ?ch)"
    by (simp add: head_eq head_request_def new_downloader_def file_del_def range_simps str_simps)
  have sz: "file_size (Some ?resp) = 3"
    by (simp add: file_size_def ok_def int_simps)
  have nz: "file_size (Some ?resp) \<noteq> 0" by (simp add: sz)
  have "open_ab ?ch (Str ''f'')
      = \<lparr>session_headers = [''user-agent'' \<mapsto> ''ua''], files = [''f'' \<mapsto> []],
         sent = [\<lparr>meth = ''HEAD'', url = ''u'', req_headers = [''user-agent'' \<mapsto> ''ua'']\<rparr>]\<rparr>"
    by (simp add: open_ab_def file_del_def new_downloader_def head_request_def)
  with download_ranges_str_raises [OF h nz, of 1024 "1024 * 1024" False] sz
  show ?thesis by simp
qed




lemma resumed_run:
  "\<exists>c'. download_ranges (range_server [1, 2, 3, 4, 5])
           (new_downloader ''ua'' [''f'' \<mapsto> [1, 2]]) ''u'' (Path ''f'') 1024 2 True False
         = Some (Inr True, c')
      \<and> files c' ''f'' = Some [1, 2, 3, 4, 5]
      \<and> range_log c' = [(''HEAD'', None), (''GET'', Some ''bytes=2-4'')]"
proof -
  let ?srv = "range_server [1, 2, 3, 4, 5]"
  let ?cn = "new_downloader ''ua'' [''f'' \<mapsto> [1, 2]]"
  let ?cd = "if True then ?cn else file_del ?cn (Path ''f'')"
  let ?ch = "?cd\<lparr>sent := sent ?cd @ [head_request ?cd ''u'']\<rparr>"
  let ?resp = "\<lparr>status_code = 200,
                 headers = [''accept-ranges'' \<mapsto> ''bytes'', ''content-length'' \<mapsto> ''5''],
                 content = []\<rparr>"
  define c2 where "c2 = open_ab ?ch (Path ''f'')"
  have h: "head ?srv ?cd ''u'' = (Inr (Some ?resp), ?ch)"
    by (simp add: head_eq head_request_def new_downloader_def range_simps str_simps)
  have sz: "file_size (Some ?resp) = 5"
    by (simp add: file_size_def ok_def int_simps)
  have f2: "files c2 ''f'' = Some [1, 2]" and l2: "range_log c2 = [(''HEAD'', None)]"
    by (simp_all add: c2_def open_ab_def new_downloader_def head_request_def range_log_def)
  have "\<exists>c'. ranges_iteration ?srv ''u'' (Path ''f'') 1024 2 5 c2
               = (Inr (if (5::int) \<le> 4 then Break else Continue), c')
            \<and> files c' ''f'' = Some ([1, 2] @ [3, 4, 5])
            \<and> range_log c' = range_log c2 @ [(''GET'', Some ''bytes=2-4'')]
            \<and> session_headers c' ''range'' = Some ''bytes=2-4''"
    by (rule range_server_pass [OF f2]) (simp_all add: range_simps str_simps)
  then obtain c3 where it2: "ranges_iteration ?srv ''u'' (Path ''f'') 1024 2 5 c2
               = (Inr Continue, c3)"
    and f3: "files c3 ''f'' = Some [1, 2, 3, 4, 5]"
    and l3: "range_log c3 = range_log c2 @ [(''GET'', Some ''bytes=2-4'')]"
    by auto
  have it3: "ranges_iteration ?srv ''u'' (Path ''f'') 1024 2 5 c3 = (Inr Break, c3)"
    by (rule ranges_iteration_done [OF f3]) simp
  have lp: "ranges_loop ?srv ''u'' (Path ''f'') 1024 2 5 c2 = Some (Inr (), c3)"
    by (simp only: ranges_loop_continue [OF it2] ranges_loop_break [OF it3])
  have st: "stat_st_size c3 (Path ''f'') = Inr 5"
    by (simp add: stat_st_size_def f3)
  have "download_ranges ?srv ?cn ''u'' (Path ''f'') 1024 2 True False
      = (case ranges_loop ?srv ''u'' (Path ''f'') 1024 2 5 (open_ab ?ch (Path ''f'')) of
        None \<Rightarrow> None
      | Some (Inl e, c2) \<Rightarrow> Some (Inl e, c2)
      | Some (Inr u, c2) \<Rightarrow>
          (case stat_st_size c2 (Path ''f'') of
             Inl e \<Rightarrow> Some (Inl e, c2)
           | Inr fsize \<Rightarrow> Some (Inr (5 \<le> fsize), c2)))"
    by (rule download_ranges_sized [OF h sz]) simp
  then have "download_ranges ?srv ?cn ''u'' (Path ''f'') 1024 2 True False
      = Some (Inr True, c3)"
    unfolding c2_def [symmetric] lp by (simp add: st)
  then show ?thesis
    using f3 l2 l3 by simp
qed

theorem resume_appends_to_prefix_witness:
  "\<exists>c' suf rs.
      download_ranges (range_server [1, 2, 3, 4, 5])
        (new_downloader ''ua'' [''f'' \<mapsto> [1, 2]]) ''u'' (Path ''f'') 1024 2 True False
        = Some (Inr True, c')
      \<and> files c' ''f'' = Some ([1, 2] @ suf)
      \<and> sent c' = [\<lparr>meth = ''HEAD'', url = ''u'', req_headers = [''user-agent'' \<mapsto> ''ua'']\<rparr>,
                   \<lparr>meth = ''GET'', url = ''u'',
                    req_headers = [''user-agent'' \<mapsto> ''ua'', ''range'' \<mapsto> ''bytes=2-4'']\<rparr>] @ rs
      \<and> 5 \<le> int (length ([1, 2] @ suf))"
proof -
  let ?srv = "range_server [1, 2, 3, 4, 5]"
  let ?cn = "new_downloader ''ua'' [''f'' \<mapsto> [1, 2]]"
  let ?resp = "\<lparr>status_code = 200,
                 headers = [''accept-ranges'' \<mapsto> ''bytes'', ''content-length'' \<mapsto> ''5''],
                 content = []\<rparr>"
  have f: "files ?cn ''f'' = Some [1, 2]" and p: "0 < length [1, 2 :: byte]"
    by (simp_all add: new_downloader_def)
  have h: "head ?srv ?cn ''u''
             = (Inr (Some ?resp), ?cn\<lparr>sent := sent ?cn @ [head_request ?cn ''u'']\<rparr>)"
    by (simp add: head_eq head_request_def new_downloader_def range_simps str_simps)
  have sz: "file_size (Some ?resp) = 5"
    by (simp add: file_size_def ok_def int_simps)
  have lt: "int (length [1, 2 :: byte]) < 5" by simp
  from resumed_run obtain c' where
    dr: "download_ranges ?srv ?cn ''u'' (Path ''f'') 1024 2 True False = Some (Inr True, c')"
    by blast
  have rq: "[head_request ?cn ''u'',
             range_request ?cn ''u'' (int (length [1, 2 :: byte]))
               (min (int (length [1, 2 :: byte]) + 2) 5)]
      = [\<lparr>meth = ''HEAD'', url = ''u'', req_headers = [''user-agent'' \<mapsto> ''ua'']\<rparr>,
         \<lparr>meth = ''GET'', url = ''u'',
          req_headers = [''user-agent'' \<mapsto> ''ua'', ''range'' \<mapsto> ''bytes=2-4'']\<rparr>]"
    by (simp add: head_request_def range_request_def new_downloader_def str_simps)
  have s0: "sent ?cn = []" by (simp add: new_downloader_def)
  from resume_appends_to_prefix [OF f p h sz lt, of 1024 2 False, THEN conjunct2,
      THEN conjunct1, rule_format, OF dr]
  show ?thesis
    using dr unfolding rq s0 by auto
qed

end
